theory Spec2Isabelle
  imports Main
begin

section \<open>Arrays, labelled tables and dictionaries\<close>

text \<open>
  The two helpers of \<^verbatim>\<open>notebooks/pizza-lp/pizza-lp.ipynb\<close> work on numpy arrays and
  on pandas containers. An array is its shape (one extent per axis) together with its
  elements in row-major (C) order; the element type is left abstract, the helpers only
  copy elements. An array is well formed when it holds as many elements as its shape says.
\<close>

datatype py_error = IndexError | TypeError | ValueError

record 'a ndarray =
  shape :: "nat list"
  data :: "'a list"

definition wf_ndarray :: "'a ndarray \<Rightarrow> bool" where
  "wf_ndarray a = (length (data a) = prod_list (shape a))"

text \<open>
  What the helpers accept: an \<^verbatim>\<open>ndarray\<close>, a \<^verbatim>\<open>DataFrame\<close> (row labels, column
  labels, and its \<^verbatim>\<open>.values\<close> grid) or a \<^verbatim>\<open>Series\<close> (labels and its \<^verbatim>\<open>.values\<close>).
\<close>

datatype ('l, 'a) table =
    NDArray "'a ndarray"
  | DataFrame "'l list" "'l list" "'a ndarray"
  | Series "'l list" "'a ndarray"

text \<open>
  \<^verbatim>\<open>if isinstance(arr, pd.DataFrame) or isinstance(arr, pd.Series): arr = arr.values\<close>
\<close>

fun to_values :: "('l, 'a) table \<Rightarrow> 'a ndarray" where
  "to_values (NDArray a) = a"
| "to_values (DataFrame idx cols v) = v"
| "to_values (Series idx v) = v"

text \<open>\<^verbatim>\<open>arr.squeeze()\<close>: the axes of extent 1 are dropped, the elements stay.\<close>

definition squeeze :: "'a ndarray \<Rightarrow> 'a ndarray" where
  "squeeze a = a\<lparr>shape := filter (\<lambda>n. n \<noteq> 1) (shape a)\<rparr>"

text \<open>\<^verbatim>\<open>np.array([arr])\<close>: one new leading axis of extent 1.\<close>

definition np_array1 :: "'a ndarray \<Rightarrow> 'a ndarray" where
  "np_array1 a = a\<lparr>shape := 1 # shape a\<rparr>"

text \<open>\<^verbatim>\<open>len(arr)\<close>: the first extent; an array with no axis has no length.\<close>

definition len_nd :: "'a ndarray \<Rightarrow> py_error + nat" where
  "len_nd a = (case shape a of [] \<Rightarrow> Inl TypeError | n # _ \<Rightarrow> Inr n)"

text \<open>\<^verbatim>\<open>arr.shape[k]\<close>: indexing the shape tuple, out of range raises.\<close>

definition shape_at :: "'a ndarray \<Rightarrow> nat \<Rightarrow> py_error + nat" where
  "shape_at a k = (if k < length (shape a) then Inr (shape a ! k) else Inl IndexError)"

text \<open>
  Indexing with integers, \<^verbatim>\<open>arr[i]\<close> and \<^verbatim>\<open>arr[i,j]\<close>. Each index selects along the
  next axis; more indices than axes, or an index beyond its extent, raise. When every
  axis has been indexed the result is the element itself, otherwise it is the sub-array
  over the remaining axes.
\<close>

datatype 'a item = Scalar 'a | SubArray "'a ndarray"

fun index_nd :: "nat list \<Rightarrow> 'a list \<Rightarrow> nat list \<Rightarrow> py_error + (nat list \<times> 'a list)" where
  "index_nd sh d [] = Inr (sh, d)"
| "index_nd [] d (i # ix) = Inl IndexError"
| "index_nd (n # sh) d (i # ix) =
     (if i < n
      then index_nd sh (take (prod_list sh) (drop (i * prod_list sh) d)) ix
      else Inl IndexError)"

fun as_item :: "nat list \<times> 'a list \<Rightarrow> 'a item" where
  "as_item ([], v # _) = Scalar v"
| "as_item (sh, d) = SubArray \<lparr>shape = sh, data = d\<rparr>"

definition getitem :: "'a ndarray \<Rightarrow> nat list \<Rightarrow> py_error + 'a item" where
  "getitem a ix =
     (case index_nd (shape a) (data a) ix of
        Inl e \<Rightarrow> Inl e
      | Inr r \<Rightarrow> Inr (as_item r))"

text \<open>
  \<^verbatim>\<open>arr.reshape(sh)\<close>: the same elements in the same order under a new shape of the
  same size.
\<close>

definition reshape :: "'a ndarray \<Rightarrow> nat list \<Rightarrow> py_error + 'a ndarray" where
  "reshape a sh =
     (if prod_list sh = prod_list (shape a)
      then Inr \<lparr>shape = sh, data = data a\<rparr>
      else Inl ValueError)"

text \<open>
  A \<^verbatim>\<open>dict\<close> is the list of its entries in insertion order. Storing under a key that
  is present replaces the value in place, storing under a new key appends.
\<close>

type_synonym ('k, 'v) dict = "('k \<times> 'v) list"

fun dict_set :: "('k, 'v) dict \<Rightarrow> 'k \<Rightarrow> 'v \<Rightarrow> ('k, 'v) dict" where
  "dict_set [] k v = [(k, v)]"
| "dict_set ((k', v') # kvs) k v =
     (if k' = k then (k', v) # kvs else (k', v') # dict_set kvs k v)"

definition dict_values :: "('k, 'v) dict \<Rightarrow> 'v list" where
  "dict_values d = map snd d"

section \<open>The two converters\<close>

text \<open>
  \<^verbatim>\<open>return {(i+1): arr[i] for i in range(len(arr))}\<close>
\<close>

fun comp_1d :: "'a ndarray \<Rightarrow> nat list \<Rightarrow> (nat, 'a item) dict \<Rightarrow> py_error + (nat, 'a item) dict" where
  "comp_1d a [] d = Inr d"
| "comp_1d a (i # rest) d =
     (case getitem a [i] of
        Inl e \<Rightarrow> Inl e
      | Inr v \<Rightarrow> comp_1d a rest (dict_set d (i + 1) v))"

definition convert_1d_array_to_dict :: "('l, 'a) table \<Rightarrow> py_error + (nat, 'a item) dict" where
  "convert_1d_array_to_dict arr =
     (let arr1 = to_values arr;
          arr2 = squeeze arr1;
          arr3 = (if shape arr2 = [] then np_array1 arr2 else arr2)
      in case len_nd arr3 of
           Inl e \<Rightarrow> Inl e
         | Inr n \<Rightarrow> comp_1d arr3 [0..<n] [])"

text \<open>
  \<^verbatim>\<open>return {(i+1,j+1): arr[i,j] for i in range(arr.shape[0]) for j in range(arr.shape[1])}\<close>
  The outer range is computed once; the inner one, and with it \<^verbatim>\<open>arr.shape[1]\<close>, is
  computed anew in each pass of the outer loop.
\<close>

fun comp_2d_inner ::
  "'a ndarray \<Rightarrow> nat \<Rightarrow> nat list \<Rightarrow> (nat \<times> nat, 'a item) dict \<Rightarrow> py_error + (nat \<times> nat, 'a item) dict" where
  "comp_2d_inner a i [] d = Inr d"
| "comp_2d_inner a i (j # rest) d =
     (case getitem a [i, j] of
        Inl e \<Rightarrow> Inl e
      | Inr v \<Rightarrow> comp_2d_inner a i rest (dict_set d (i + 1, j + 1) v))"

fun comp_2d ::
  "'a ndarray \<Rightarrow> nat list \<Rightarrow> (nat \<times> nat, 'a item) dict \<Rightarrow> py_error + (nat \<times> nat, 'a item) dict" where
  "comp_2d a [] d = Inr d"
| "comp_2d a (i # rest) d =
     (case shape_at a 1 of
        Inl e \<Rightarrow> Inl e
      | Inr n \<Rightarrow>
          (case comp_2d_inner a i [0..<n] d of
             Inl e \<Rightarrow> Inl e
           | Inr d' \<Rightarrow> comp_2d a rest d'))"

definition convert_2d_array_to_dict :: "('l, 'a) table \<Rightarrow> py_error + (nat \<times> nat, 'a item) dict" where
  "convert_2d_array_to_dict arr =
     (let arr1 = to_values arr
      in case shape_at arr1 0 of
           Inl e \<Rightarrow> Inl e
         | Inr m \<Rightarrow> comp_2d arr1 [0..<m] [])"

section \<open>Calls on a store of objects\<close>

text \<open>
  Python passes the table by reference, and every step of a helper may in principle
  write to an object. To state that neither helper does, a call is also modelled on a
  store: the list of all objects in the order of their creation, a reference being a
  position in it. \<^verbatim>\<open>arr.values\<close> of a data frame or series, \<^verbatim>\<open>arr.squeeze()\<close> and
  \<^verbatim>\<open>np.array([arr])\<close> each create one array object and rebind the local name
  \<^verbatim>\<open>arr\<close> to it; the comprehension only reads. No step of either helper assigns into
  an array, so an array created as a view is stored with the elements it shows. A
  result \<open>None\<close> stands for a reference that denotes no object, or no array where the
  step needs one; it is no run of the program.
\<close>

type_synonym ref = nat

type_synonym ('l, 'a) heap = "('l, 'a) table list"

text \<open>Reading the object behind a reference, and creating an object.\<close>

definition obj_at :: "('l, 'a) heap \<Rightarrow> ref \<Rightarrow> ('l, 'a) table option" where
  "obj_at h r = (if r < length h then Some (h ! r) else None)"

definition new_obj :: "('l, 'a) table \<Rightarrow> ('l, 'a) heap \<Rightarrow> ref \<times> ('l, 'a) heap" where
  "new_obj x h = (length h, h @ [x])"

definition array_at :: "('l, 'a) heap \<Rightarrow> ref \<Rightarrow> 'a ndarray option" where
  "array_at h r = (case obj_at h r of Some (NDArray a) \<Rightarrow> Some a | _ \<Rightarrow> None)"

text \<open>
  \<^verbatim>\<open>if isinstance(arr, pd.DataFrame) or isinstance(arr, pd.Series): arr = arr.values\<close>,
  then \<^verbatim>\<open>arr = arr.squeeze()\<close>, then
  \<^verbatim>\<open>if np.shape(arr) == (): arr = np.array([arr])\<close>. Each step takes the reference
  bound to \<^verbatim>\<open>arr\<close> and gives the reference bound to it afterwards.
\<close>

definition values_step :: "ref \<Rightarrow> ('l, 'a) heap \<Rightarrow> (ref \<times> ('l, 'a) heap) option" where
  "values_step r h =
     (case obj_at h r of
        None \<Rightarrow> None
      | Some (NDArray a) \<Rightarrow> Some (r, h)
      | Some (DataFrame idx cols v) \<Rightarrow> Some (new_obj (NDArray v) h)
      | Some (Series idx v) \<Rightarrow> Some (new_obj (NDArray v) h))"

definition squeeze_step :: "ref \<Rightarrow> ('l, 'a) heap \<Rightarrow> (ref \<times> ('l, 'a) heap) option" where
  "squeeze_step r h =
     (case array_at h r of
        None \<Rightarrow> None
      | Some a \<Rightarrow> Some (new_obj (NDArray (squeeze a)) h))"

definition np_array1_step :: "ref \<Rightarrow> ('l, 'a) heap \<Rightarrow> (ref \<times> ('l, 'a) heap) option" where
  "np_array1_step r h =
     (case array_at h r of
        None \<Rightarrow> None
      | Some a \<Rightarrow> (if shape a = [] then Some (new_obj (NDArray (np_array1 a)) h) else Some (r, h)))"

text \<open>
  \<^verbatim>\<open>convert_1d_array_to_dict(arr)\<close> and \<^verbatim>\<open>convert_2d_array_to_dict(arr)\<close> called with
  the reference \<open>r\<close> in the store \<open>h\<close>: the returned value (or the exception) and the
  store after the call.
\<close>

definition convert_1d_call ::
  "ref \<Rightarrow> ('l, 'a) heap \<Rightarrow> ((py_error + (nat, 'a item) dict) \<times> ('l, 'a) heap) option" where
  "convert_1d_call r h =
     (case values_step r h of
        None \<Rightarrow> None
      | Some (r1, h1) \<Rightarrow>
          (case squeeze_step r1 h1 of
             None \<Rightarrow> None
           | Some (r2, h2) \<Rightarrow>
               (case np_array1_step r2 h2 of
                  None \<Rightarrow> None
                | Some (r3, h3) \<Rightarrow>
                    (case array_at h3 r3 of
                       None \<Rightarrow> None
                     | Some a \<Rightarrow>
                         Some (case len_nd a of
                                 Inl e \<Rightarrow> Inl e
                               | Inr n \<Rightarrow> comp_1d a [0..<n] [], h3)))))"

definition convert_2d_call ::
  "ref \<Rightarrow> ('l, 'a) heap \<Rightarrow> ((py_error + (nat \<times> nat, 'a item) dict) \<times> ('l, 'a) heap) option" where
  "convert_2d_call r h =
     (case values_step r h of
        None \<Rightarrow> None
      | Some (r1, h1) \<Rightarrow>
          (case array_at h1 r1 of
             None \<Rightarrow> None
           | Some a \<Rightarrow>
               Some (case shape_at a 0 of
                       Inl e \<Rightarrow> Inl e
                     | Inr m \<Rightarrow> comp_2d a [0..<m] [], h1)))"

section \<open>Notions used to state the properties\<close>

text \<open>
  The array with two axes whose rows are \<open>rows\<close>, each of \<open>n\<close> cells
  (\<^verbatim>\<open>np.array(rows)\<close>): the cell in row \<open>i\<close>, column \<open>j\<close> is \<open>rows ! i ! j\<close>.
\<close>

definition grid :: "nat \<Rightarrow> 'a list list \<Rightarrow> 'a ndarray" where
  "grid n rows = \<lparr>shape = [length rows, n], data = concat rows\<rparr>"

text \<open>
  The entries \<^verbatim>\<open>i+1: f i\<close> for \<open>i\<close> below \<open>n\<close>, and the entries
  \<^verbatim>\<open>(i+1, j+1): f i j\<close> for \<open>i\<close> in \<open>ix\<close> and \<open>j\<close> below \<open>n\<close>, in the order
  in which the loops visit them.
\<close>

definition line_entries :: "(nat \<Rightarrow> 'v) \<Rightarrow> nat \<Rightarrow> (nat \<times> 'v) list" where
  "line_entries f n = map (\<lambda>i. (i + 1, f i)) [0..<n]"

definition grid_entries :: "(nat \<Rightarrow> nat \<Rightarrow> 'v) \<Rightarrow> nat list \<Rightarrow> nat \<Rightarrow> ((nat \<times> nat) \<times> 'v) list" where
  "grid_entries f ix n = concat (map (\<lambda>i. map (\<lambda>j. ((i + 1, j + 1), f i j)) [0..<n]) ix)"

text \<open>
  A parameter map of the data model sends each key to a number. A dictionary returned
  by a helper is one when none of its values is a sub-array.
\<close>

fun is_number :: "'a item \<Rightarrow> bool" where
  "is_number (Scalar v) = True"
| "is_number (SubArray a) = False"

definition parameter_map :: "('k, 'a item) dict \<Rightarrow> bool" where
  "parameter_map d = list_all is_number (dict_values d)"

text \<open>
  The invariant of a parameter map over \<open>n\<close> values, and over \<open>m\<close> by \<open>n\<close> values:
  every key within the extents, no key twice, as many entries as values.
\<close>

definition dense_1d :: "nat \<Rightarrow> (nat, 'v) dict \<Rightarrow> bool" where
  "dense_1d n d =
     (list_all (\<lambda>k. 1 \<le> k \<and> k \<le> n) (map fst d) \<and> distinct (map fst d) \<and> length d = n)"

definition dense_2d :: "nat \<Rightarrow> nat \<Rightarrow> (nat \<times> nat, 'v) dict \<Rightarrow> bool" where
  "dense_2d m n d =
     (list_all (\<lambda>(i, j). 1 \<le> i \<and> i \<le> m \<and> 1 \<le> j \<and> j \<le> n) (map fst d) \<and>
      distinct (map fst d) \<and> length d = m * n)"

text \<open>
  The values of a dictionary as one column, the form in which the transportation
  notebook holds the flat solution (\<^verbatim>\<open>solution.shape\<close> is \<^verbatim>\<open>(12, 1)\<close>) before
  \<^verbatim>\<open>solution.values.reshape(num_plant, num_warehouse)\<close>.
\<close>

fun item_data :: "'a item \<Rightarrow> 'a list" where
  "item_data (Scalar v) = [v]"
| "item_data (SubArray a) = data a"

definition column :: "'a item list \<Rightarrow> 'a ndarray" where
  "column vs = \<lparr>shape = [length vs, 1], data = concat (map item_data vs)\<rparr>"

text \<open>
  A store \<open>h'\<close> extends \<open>h\<close> when every object of \<open>h\<close> is in \<open>h'\<close> at its place,
  unchanged.
\<close>

definition extends :: "('l, 'a) heap \<Rightarrow> ('l, 'a) heap \<Rightarrow> bool" where
  "extends h h' = (take (length h) h' = h)"

section \<open>The comprehensions as lists of entries\<close>

lemma dict_set_fresh: "k \<notin> fst ` set d \<Longrightarrow> dict_set d k v = d @ [(k, v)]"
  by (induction d) auto

lemma comp_1d_run:
  assumes "\<And>i. i \<in> set ix \<Longrightarrow> getitem a [i] = Inr (f i)"
    and "distinct ix"
    and "\<And>i. i \<in> set ix \<Longrightarrow> i + 1 \<notin> fst ` set d"
  shows "comp_1d a ix d = Inr (d @ map (\<lambda>i. (i + 1, f i)) ix)"
  using assms
proof (induction ix arbitrary: d)
  case Nil
  then show ?case by simp
next
  case (Cons i rest)
  have fresh: "i + 1 \<notin> fst ` set d" using Cons.prems(3) by simp
  have step: "dict_set d (i + 1) (f i) = d @ [(i + 1, f i)]"
    using fresh by (rule dict_set_fresh)
  have "comp_1d a rest (d @ [(i + 1, f i)]) = Inr ((d @ [(i + 1, f i)]) @ map (\<lambda>i. (i + 1, f i)) rest)"
  proof (rule Cons.IH)
    show "\<And>k. k \<in> set rest \<Longrightarrow> getitem a [k] = Inr (f k)" using Cons.prems(1) by simp
    show "distinct rest" using Cons.prems(2) by simp
    show "\<And>k. k \<in> set rest \<Longrightarrow> k + 1 \<notin> fst ` set (d @ [(i + 1, f i)])"
      using Cons.prems(2,3) by auto
  qed
  then show ?case using Cons.prems(1)[of i] step by simp
qed

lemma comp_2d_inner_run:
  assumes "\<And>j. j \<in> set jx \<Longrightarrow> getitem a [i, j] = Inr (f j)"
    and "distinct jx"
    and "\<And>j. j \<in> set jx \<Longrightarrow> (i + 1, j + 1) \<notin> fst ` set d"
  shows "comp_2d_inner a i jx d = Inr (d @ map (\<lambda>j. ((i + 1, j + 1), f j)) jx)"
  using assms
proof (induction jx arbitrary: d)
  case Nil
  then show ?case by simp
next
  case (Cons j rest)
  have fresh: "(i + 1, j + 1) \<notin> fst ` set d" using Cons.prems(3) by simp
  have step: "dict_set d (i + 1, j + 1) (f j) = d @ [((i + 1, j + 1), f j)]"
    using fresh by (rule dict_set_fresh)
  have "comp_2d_inner a i rest (d @ [((i + 1, j + 1), f j)])
        = Inr ((d @ [((i + 1, j + 1), f j)]) @ map (\<lambda>j. ((i + 1, j + 1), f j)) rest)"
  proof (rule Cons.IH)
    show "\<And>k. k \<in> set rest \<Longrightarrow> getitem a [i, k] = Inr (f k)" using Cons.prems(1) by simp
    show "distinct rest" using Cons.prems(2) by simp
    show "\<And>k. k \<in> set rest \<Longrightarrow> (i + 1, k + 1) \<notin> fst ` set (d @ [((i + 1, j + 1), f j)])"
      using Cons.prems(2,3) by auto
  qed
  then show ?case using Cons.prems(1)[of j] step by simp
qed

lemma grid_entries_keys:
  "fst ` set (grid_entries f ix n) = (\<lambda>(i, j). (i + 1, j + 1)) ` (set ix \<times> {0..<n})"
  by (force simp: grid_entries_def image_iff)

lemma comp_2d_run:
  assumes "shape_at a 1 = Inr n"
    and "\<And>i j. i \<in> set ix \<Longrightarrow> j < n \<Longrightarrow> getitem a [i, j] = Inr (f i j)"
    and "distinct ix"
    and "\<And>i j. i \<in> set ix \<Longrightarrow> (i + 1, j + 1) \<notin> fst ` set d"
  shows "comp_2d a ix d = Inr (d @ grid_entries f ix n)"
  using assms(2-)
proof (induction ix arbitrary: d)
  case Nil
  then show ?case by (simp add: grid_entries_def)
next
  case (Cons i rest)
  let ?row = "map (\<lambda>j. ((i + 1, j + 1), f i j)) [0..<n]"
  have inner: "comp_2d_inner a i [0..<n] d = Inr (d @ ?row)"
  proof (rule comp_2d_inner_run)
    show "\<And>j. j \<in> set [0..<n] \<Longrightarrow> getitem a [i, j] = Inr (f i j)" using Cons.prems(1) by simp
    show "distinct [0..<n]" by simp
    show "\<And>j. j \<in> set [0..<n] \<Longrightarrow> (i + 1, j + 1) \<notin> fst ` set d" using Cons.prems(3) by simp
  qed
  have "comp_2d a rest (d @ ?row) = Inr ((d @ ?row) @ grid_entries f rest n)"
  proof (rule Cons.IH)
    show "\<And>k j. k \<in> set rest \<Longrightarrow> j < n \<Longrightarrow> getitem a [k, j] = Inr (f k j)" using Cons.prems(1) by simp
    show "distinct rest" using Cons.prems(2) by simp
    show "\<And>k j. k \<in> set rest \<Longrightarrow> (k + 1, j + 1) \<notin> fst ` set (d @ ?row)"
      using Cons.prems(2,3) by auto
  qed
  then show ?case using inner assms(1) by (simp add: grid_entries_def)
qed

subsection \<open>Indexing\<close>

lemma take1_drop: "i < length d \<Longrightarrow> take (Suc 0) (drop i d) = [d ! i]"
  by (simp add: take_Suc_conv_app_nth)

lemma getitem_1d:
  assumes "shape a = [n]" "length (data a) = n" "i < n"
  shows "getitem a [i] = Inr (Scalar (data a ! i))"
  using assms by (simp add: getitem_def take1_drop)

lemma getitem_2d:
  assumes "shape a = [m, n]" "length (data a) = m * n" "i < m" "j < n"
  shows "getitem a [i, j] = Inr (Scalar (data a ! (i * n + j)))"
proof -
  have "i * n + n \<le> m * n"
    using assms(3) by (metis Suc_leI mult_Suc mult_le_mono1 add.commute)
  then have len: "j < length (take n (drop (i * n) (data a)))"
    using assms(2,4) by simp
  have "take (Suc 0) (drop j (take n (drop (i * n) (data a)))) = [take n (drop (i * n) (data a)) ! j]"
    using len by (rule take1_drop)
  also have "take n (drop (i * n) (data a)) ! j = data a ! (i * n + j)"
  proof -
    have "i * n \<le> length (data a)"
      using \<open>i * n + n \<le> m * n\<close> assms(2) by linarith
    then show ?thesis using assms(4) by (simp add: add.commute)
  qed
  finally show ?thesis
    using assms(1,3,4) by (simp add: getitem_def)
qed

lemma as_item_sub: "r \<noteq> [] \<Longrightarrow> as_item (r, d) = SubArray \<lparr>shape = r, data = d\<rparr>"
  by (cases r) simp_all

lemma getitem_row:
  assumes "shape a = n # r" "r \<noteq> []" "i < n"
  shows "getitem a [i] = Inr (SubArray \<lparr>shape = r, data = take (prod_list r) (drop (i * prod_list r) (data a))\<rparr>)"
  using assms by (simp add: getitem_def as_item_sub)

lemma getitem_plane:
  assumes "shape a = m # n # r" "r \<noteq> []" "i < m" "j < n"
  shows "getitem a [i, j] = Inr (SubArray \<lparr>shape = r,
           data = take (prod_list r) (drop (j * prod_list r)
                    (take (n * prod_list r) (drop (i * (n * prod_list r)) (data a))))\<rparr>)"
  using assms by (simp add: getitem_def as_item_sub)

subsection \<open>Rows of equal length\<close>

lemma concat_uniform_length:
  "\<forall>r\<in>set rows. length r = n \<Longrightarrow> length (concat rows) = length rows * n"
  by (induction rows) simp_all

lemma concat_uniform_nth:
  "\<forall>r\<in>set rows. length r = n \<Longrightarrow> i < length rows \<Longrightarrow> j < n \<Longrightarrow>
   concat rows ! (i * n + j) = rows ! i ! j"
proof (induction rows arbitrary: i)
  case Nil
  then show ?case by simp
next
  case (Cons r rows)
  show ?case
  proof (cases i)
    case 0
    then show ?thesis using Cons.prems by (simp add: nth_append)
  next
    case (Suc k)
    have "concat (r # rows) ! (i * n + j) = concat rows ! (k * n + j)"
      using Suc Cons.prems(1) by (simp add: nth_append)
    also have "\<dots> = rows ! k ! j"
      using Cons.IH[of k] Cons.prems Suc by simp
    finally show ?thesis using Suc by simp
  qed
qed

lemma chunks_concat: "concat (map (\<lambda>i. take n (drop (i * n) d)) [0..<m]) = take (m * n) d"
proof (induction m)
  case 0
  then show ?case by simp
next
  case (Suc m)
  have "concat (map (\<lambda>i. take n (drop (i * n) d)) [0..<Suc m])
        = concat (map (\<lambda>i. take n (drop (i * n) d)) [0..<m]) @ take n (drop (m * n) d)"
    by simp
  also have "\<dots> = take (m * n) d @ take n (drop (m * n) d)"
    by (simp only: Suc.IH)
  also have "\<dots> = take (m * n + n) d"
    by (rule take_add [symmetric])
  also have "m * n + n = Suc m * n"
    by simp
  finally show ?case .
qed

lemma wf_2d_is_grid:
  assumes "wf_ndarray a" and "shape a = [m, n]"
  shows "\<exists>rows. a = grid n rows \<and> length rows = m \<and> (\<forall>r\<in>set rows. length r = n)"
proof -
  let ?rows = "map (\<lambda>i. take n (drop (i * n) (data a))) [0..<m]"
  have len: "length (data a) = m * n"
    using assms by (simp add: wf_ndarray_def)
  have "concat ?rows = data a"
    using chunks_concat[of n "data a" m] len by simp
  then have eq: "a = grid n ?rows"
    using assms(2) by (cases a) (simp add: grid_def)
  have cells: "length r = n" if mem: "r \<in> set ?rows" for r
  proof -
    obtain i where i: "i < m" "r = take n (drop (i * n) (data a))"
      using mem by auto
    have "i * n + n \<le> m * n"
      using i(1) by (metis Suc_leI mult_Suc mult_le_mono1 add.commute)
    then show ?thesis using i(2) len by simp
  qed
  have "length ?rows = m" by simp
  with eq cells show ?thesis by blast
qed

subsection \<open>The expected entries\<close>

lemma grid_entries_length: "length (grid_entries f ix n) = length ix * n"
  by (induction ix) (simp_all add: grid_entries_def)

lemma grid_entries_nth:
  assumes "i < length ix" "j < n"
  shows "grid_entries f ix n ! (i * n + j) = ((ix ! i + 1, j + 1), f (ix ! i) j)"
proof -
  have "grid_entries f ix n ! (i * n + j)
        = map (\<lambda>i. map (\<lambda>j. ((i + 1, j + 1), f i j)) [0..<n]) ix ! i ! j"
    unfolding grid_entries_def using assms by (intro concat_uniform_nth) simp_all
  then show ?thesis using assms by simp
qed

lemma grid_entries_distinct:
  "distinct ix \<Longrightarrow> distinct (map fst (grid_entries f ix n))"
proof (induction ix)
  case Nil
  then show ?case by (simp add: grid_entries_def)
next
  case (Cons i rest)
  have row: "distinct (map fst (map (\<lambda>j. ((i + 1, j + 1), f i j)) [0..<n]))"
    by (simp add: distinct_map inj_on_def comp_def)
  have split: "grid_entries f (i # rest) n
               = map (\<lambda>j. ((i + 1, j + 1), f i j)) [0..<n] @ grid_entries f rest n"
    by (simp add: grid_entries_def)
  have disj: "fst ` set (map (\<lambda>j. ((i + 1, j + 1), f i j)) [0..<n]) \<inter> fst ` set (grid_entries f rest n) = {}"
    using Cons.prems by (auto simp: grid_entries_keys)
  show ?case using row Cons disj unfolding split by (simp add: image_image)
qed

lemma grid_entries_lookup:
  assumes "distinct ix" "i \<in> set ix" "j < n"
  shows "map_of (grid_entries f ix n) (i + 1, j + 1) = Some (f i j)"
proof -
  have "((i + 1, j + 1), f i j) \<in> set (grid_entries f ix n)"
    using assms(2,3) by (force simp: grid_entries_def)
  then show ?thesis
    using grid_entries_distinct[OF assms(1)] by (rule map_of_is_SomeI[rotated])
qed

lemma grid_entries_values:
  "map snd (grid_entries f [0..<m] n) = map (\<lambda>k. f (k div n) (k mod n)) [0..<m * n]"
proof (rule nth_equalityI)
  show "length (map snd (grid_entries f [0..<m] n)) = length (map (\<lambda>k. f (k div n) (k mod n)) [0..<m * n])"
    by (simp add: grid_entries_length)
next
  fix k assume "k < length (map snd (grid_entries f [0..<m] n))"
  then have k: "k < m * n" by (simp add: grid_entries_length)
  then have pos: "0 < n" by (cases n) simp_all
  have q: "k div n < m" using k pos by (simp add: less_mult_imp_div_less)
  have r: "k mod n < n" using pos by simp
  have "grid_entries f [0..<m] n ! (k div n * n + k mod n)
        = (([0..<m] ! (k div n) + 1, k mod n + 1), f ([0..<m] ! (k div n)) (k mod n))"
    using q r by (intro grid_entries_nth) simp_all
  then have "grid_entries f [0..<m] n ! k = ((k div n + 1, k mod n + 1), f (k div n) (k mod n))"
    using q by simp
  then show "map snd (grid_entries f [0..<m] n) ! k = map (\<lambda>k. f (k div n) (k mod n)) [0..<m * n] ! k"
    using k by (simp add: grid_entries_length)
qed

lemma grid_entries_dense: "dense_2d m n (grid_entries f [0..<m] n)"
proof -
  have "list_all (\<lambda>(i, j). 1 \<le> i \<and> i \<le> m \<and> 1 \<le> j \<and> j \<le> n) (map fst (grid_entries f [0..<m] n))"
    by (auto simp: list_all_iff grid_entries_def)
  then show ?thesis
    unfolding dense_2d_def by (simp add: grid_entries_distinct grid_entries_length)
qed

lemma line_entries_length: "length (line_entries f n) = n"
  by (simp add: line_entries_def)

lemma line_entries_distinct: "distinct (map fst (line_entries f n))"
  by (simp add: line_entries_def distinct_map inj_on_def comp_def)

lemma line_entries_lookup:
  assumes "i < n"
  shows "map_of (line_entries f n) (i + 1) = Some (f i)"
proof -
  have "(i + 1, f i) \<in> set (line_entries f n)"
    using assms by (force simp: line_entries_def)
  then show ?thesis
    using line_entries_distinct by (rule map_of_is_SomeI[rotated])
qed

lemma line_entries_dense: "dense_1d n (line_entries f n)"
  unfolding dense_1d_def
  by (auto simp: list_all_iff line_entries_def distinct_map inj_on_def)

lemma line_entries_scalars: "parameter_map (line_entries (\<lambda>i. Scalar (g i)) n)"
  by (simp add: parameter_map_def dict_values_def line_entries_def list_all_iff)

lemma grid_entries_scalars: "parameter_map (grid_entries (\<lambda>i j. Scalar (g i j)) ix n)"
  by (auto simp: parameter_map_def dict_values_def grid_entries_def list_all_iff)

lemma scalars_data: "concat (map item_data (map Scalar xs)) = xs"
  by (induction xs) simp_all

lemma cells_values:
  assumes "length xs = m * n"
  shows "map snd (grid_entries (\<lambda>i j. Scalar (xs ! (i * n + j))) [0..<m] n) = map Scalar xs"
proof -
  have "map snd (grid_entries (\<lambda>i j. Scalar (xs ! (i * n + j))) [0..<m] n)
        = map (\<lambda>k. Scalar (xs ! (k div n * n + k mod n))) [0..<m * n]"
    by (rule grid_entries_values)
  also have "\<dots> = map (\<lambda>k. Scalar (xs ! k)) [0..<length xs]"
    using assms by simp
  also have "\<dots> = map Scalar (map (\<lambda>k. xs ! k) [0..<length xs])"
    by simp
  also have "\<dots> = map Scalar xs"
    by (simp only: map_nth)
  finally show ?thesis .
qed

lemma prod_list_squeezed: "prod_list (filter (\<lambda>n. n \<noteq> 1) sh) = prod_list sh"
  by (induction sh) simp_all

subsection \<open>What each converter returns, by shape\<close>

lemma convert_2d_run:
  assumes "shape (to_values t) = m # n # r"
    and "\<And>i j. i < m \<Longrightarrow> j < n \<Longrightarrow> getitem (to_values t) [i, j] = Inr (f i j)"
  shows "convert_2d_array_to_dict t = Inr (grid_entries f [0..<m] n)"
proof -
  have s0: "shape_at (to_values t) 0 = Inr m" and s1: "shape_at (to_values t) 1 = Inr n"
    using assms(1) by (simp_all add: shape_at_def)
  have "comp_2d (to_values t) [0..<m] [] = Inr ([] @ grid_entries f [0..<m] n)"
    using s1 by (rule comp_2d_run) (simp_all add: assms(2))
  then show ?thesis using s0 by (simp add: convert_2d_array_to_dict_def)
qed

lemma convert_2d_cells:
  assumes "shape (to_values t) = [m, n]" and "length (data (to_values t)) = m * n"
  shows "convert_2d_array_to_dict t
         = Inr (grid_entries (\<lambda>i j. Scalar (data (to_values t) ! (i * n + j))) [0..<m] n)"
  using assms(1) by (rule convert_2d_run) (rule getitem_2d[OF assms])

lemma convert_2d_planes:
  assumes "shape (to_values t) = m # n # r" and "r \<noteq> []"
  shows "convert_2d_array_to_dict t
         = Inr (grid_entries (\<lambda>i j. SubArray \<lparr>shape = r,
             data = take (prod_list r) (drop (j * prod_list r)
                      (take (n * prod_list r) (drop (i * (n * prod_list r)) (data (to_values t)))))\<rparr>)
             [0..<m] n)"
  using assms(1) by (rule convert_2d_run) (rule getitem_plane[OF assms])

lemma convert_2d_no_axis:
  "shape (to_values t) = [] \<Longrightarrow> convert_2d_array_to_dict t = Inl IndexError"
  by (simp add: convert_2d_array_to_dict_def shape_at_def)

lemma convert_2d_one_axis:
  "shape (to_values t) = [n] \<Longrightarrow>
   convert_2d_array_to_dict t = (if n = 0 then Inr [] else Inl IndexError)"
  by (cases n) (simp_all add: convert_2d_array_to_dict_def shape_at_def upt_rec)

lemma convert_1d_run:
  assumes "shape a = n # r"
    and "\<And>i. i < n \<Longrightarrow> getitem a [i] = Inr (f i)"
  shows "(case len_nd a of Inl e \<Rightarrow> Inl e | Inr k \<Rightarrow> comp_1d a [0..<k] []) = Inr (line_entries f n)"
proof -
  have "comp_1d a [0..<n] [] = Inr ([] @ map (\<lambda>i. (i + 1, f i)) [0..<n])"
    by (rule comp_1d_run) (simp_all add: assms(2))
  then show ?thesis using assms(1) by (simp add: len_nd_def line_entries_def)
qed

lemma convert_1d_scalars:
  assumes "to_values t = \<lparr>shape = sh, data = xs\<rparr>"
    and "length (filter (\<lambda>n. n \<noteq> 1) sh) \<le> 1"
    and "length xs = prod_list sh"
  shows "convert_1d_array_to_dict t = Inr (line_entries (\<lambda>i. Scalar (xs ! i)) (length xs))"
proof -
  let ?a = "\<lparr>shape = [length xs], data = xs\<rparr>"
  have prep: "(if shape (squeeze (to_values t)) = [] then np_array1 (squeeze (to_values t))
               else squeeze (to_values t)) = ?a"
  proof (cases "filter (\<lambda>n. n \<noteq> 1) sh")
    case Nil
    then have "prod_list sh = 1" using prod_list_squeezed[of sh] by simp
    then show ?thesis using Nil assms(1,3) by (simp add: squeeze_def np_array1_def)
  next
    case (Cons n r)
    then have "r = []" using assms(2) by simp
    then have "prod_list sh = n" using Cons prod_list_squeezed[of sh] by simp
    then show ?thesis using Cons \<open>r = []\<close> assms(1,3) by (simp add: squeeze_def)
  qed
  show ?thesis
    unfolding convert_1d_array_to_dict_def Let_def prep
  proof (rule convert_1d_run)
    show "shape ?a = length xs # []" by simp
    show "\<And>i. i < length xs \<Longrightarrow> getitem ?a [i] = Inr (Scalar (xs ! i))"
      using getitem_1d[of ?a "length xs"] by simp
  qed
qed

lemma convert_1d_rows:
  assumes "filter (\<lambda>n. n \<noteq> 1) (shape (to_values t)) = n # r" and "r \<noteq> []"
  shows "convert_1d_array_to_dict t =
         Inr (line_entries (\<lambda>i. SubArray \<lparr>shape = r,
                data = take (prod_list r) (drop (i * prod_list r) (data (to_values t)))\<rparr>) n)"
proof -
  let ?a = "squeeze (to_values t)"
  have sh: "shape ?a = n # r" using assms(1) by (simp add: squeeze_def)
  have dt: "data ?a = data (to_values t)" by (simp add: squeeze_def)
  have "(case len_nd ?a of Inl e \<Rightarrow> Inl e | Inr k \<Rightarrow> comp_1d ?a [0..<k] [])
        = Inr (line_entries (\<lambda>i. SubArray \<lparr>shape = r,
                data = take (prod_list r) (drop (i * prod_list r) (data (to_values t)))\<rparr>) n)"
    using sh
  proof (rule convert_1d_run)
    fix i assume "i < n"
    then show "getitem ?a [i] = Inr (SubArray \<lparr>shape = r,
                data = take (prod_list r) (drop (i * prod_list r) (data (to_values t)))\<rparr>)"
      using getitem_row[OF sh assms(2)] dt by simp
  qed
  then show ?thesis
    using sh by (simp add: convert_1d_array_to_dict_def Let_def)
qed

subsection \<open>Steps on the store\<close>

lemma extends_refl: "extends h h"
  by (simp add: extends_def)

lemma extends_new: "extends h (h @ [x])"
  by (simp add: extends_def)

lemma extends_trans: "extends h h1 \<Longrightarrow> extends h1 h2 \<Longrightarrow> extends h h2"
  unfolding extends_def
  by (metis length_take min.absorb2 nat_le_linear take_all take_take min.commute)

lemma extends_obj_at: "extends h h' \<Longrightarrow> obj_at h r = Some x \<Longrightarrow> obj_at h' r = Some x"
  unfolding extends_def obj_at_def
  by (metis length_take min_less_iff_conj nth_take option.distinct(1))

lemma array_at_new: "array_at (h @ [NDArray a]) (length h) = Some a"
  by (simp add: array_at_def obj_at_def)

lemma values_step_ok:
  assumes "obj_at h r = Some x"
  shows "\<exists>r1 h1. values_step r h = Some (r1, h1) \<and> array_at h1 r1 = Some (to_values x) \<and> extends h h1"
proof (cases x)
  case (NDArray a)
  then show ?thesis using assms by (simp add: values_step_def array_at_def extends_refl)
next
  case (DataFrame idx cols v)
  then have "values_step r h = Some (length h, h @ [NDArray v])"
    using assms by (simp add: values_step_def new_obj_def)
  then show ?thesis using DataFrame array_at_new[of h v] extends_new[of h "NDArray v"] by auto
next
  case (Series idx v)
  then have "values_step r h = Some (length h, h @ [NDArray v])"
    using assms by (simp add: values_step_def new_obj_def)
  then show ?thesis using Series array_at_new[of h v] extends_new[of h "NDArray v"] by auto
qed

lemma squeeze_step_ok:
  assumes "array_at h r = Some a"
  shows "\<exists>r1 h1. squeeze_step r h = Some (r1, h1) \<and> array_at h1 r1 = Some (squeeze a) \<and> extends h h1"
proof -
  have "squeeze_step r h = Some (length h, h @ [NDArray (squeeze a)])"
    using assms by (simp add: squeeze_step_def new_obj_def)
  then show ?thesis
    using array_at_new[of h "squeeze a"] extends_new[of h "NDArray (squeeze a)"] by auto
qed

lemma np_array1_step_ok:
  assumes "array_at h r = Some a"
  shows "\<exists>r1 h1. np_array1_step r h = Some (r1, h1) \<and>
           array_at h1 r1 = Some (if shape a = [] then np_array1 a else a) \<and> extends h h1"
proof (cases "shape a = []")
  case True
  then have "np_array1_step r h = Some (length h, h @ [NDArray (np_array1 a)])"
    using assms by (simp add: np_array1_step_def new_obj_def)
  then show ?thesis
    using True array_at_new[of h "np_array1 a"] extends_new[of h "NDArray (np_array1 a)"] by auto
next
  case False
  then show ?thesis using assms by (simp add: np_array1_step_def extends_refl)
qed

lemma convert_1d_call_ok:
  assumes "obj_at h r = Some x"
  shows "\<exists>h'. convert_1d_call r h = Some (convert_1d_array_to_dict x, h') \<and> extends h h'"
proof -
  obtain r1 h1 where s1: "values_step r h = Some (r1, h1)" "array_at h1 r1 = Some (to_values x)" "extends h h1"
    using values_step_ok[OF assms] by blast
  obtain r2 h2 where s2: "squeeze_step r1 h1 = Some (r2, h2)"
      "array_at h2 r2 = Some (squeeze (to_values x))" "extends h1 h2"
    using squeeze_step_ok[OF s1(2)] by blast
  obtain r3 h3 where s3: "np_array1_step r2 h2 = Some (r3, h3)"
      "array_at h3 r3 = Some (if shape (squeeze (to_values x)) = [] then np_array1 (squeeze (to_values x))
                             else squeeze (to_values x))" "extends h2 h3"
    using np_array1_step_ok[OF s2(2)] by blast
  have ext: "extends h h3"
    using s1(3) s2(3) s3(3) extends_trans by blast
  have "convert_1d_call r h = Some (convert_1d_array_to_dict x, h3)"
    unfolding convert_1d_call_def convert_1d_array_to_dict_def Let_def
    using s1(1) s2(1) s3(1,2) by simp
  then show ?thesis using ext by blast
qed

lemma convert_2d_call_ok:
  assumes "obj_at h r = Some x"
  shows "\<exists>h'. convert_2d_call r h = Some (convert_2d_array_to_dict x, h') \<and> extends h h'"
proof -
  obtain r1 h1 where s1: "values_step r h = Some (r1, h1)" "array_at h1 r1 = Some (to_values x)" "extends h h1"
    using values_step_ok[OF assms] by blast
  have "convert_2d_call r h = Some (convert_2d_array_to_dict x, h1)"
    unfolding convert_2d_call_def convert_2d_array_to_dict_def Let_def
    using s1(1,2) by simp
  then show ?thesis using s1(3) by blast
qed

section \<open>Tables of the expected shape\<close>

text \<open>
  C1. For every table with two axes, \<open>m\<close> rows of \<open>n\<close> cells (in particular with
  \<open>m, n \<ge> 1\<close>), given as an array, a data frame or a series,
  \<^verbatim>\<open>convert_2d_array_to_dict\<close> returns a dictionary of exactly \<open>m * n\<close> entries with
  pairwise different keys, and for every \<open>i\<close> in \<open>1..m\<close> and \<open>j\<close> in \<open>1..n\<close> its
  value at key \<open>(i, j)\<close> is the cell in row \<open>i - 1\<close>, column \<open>j - 1\<close>. By
  \<open>wf_2d_is_grid\<close> every well-formed array with two axes is such a table.
\<close>

theorem convert_2d_dense:
  assumes "to_values t = grid n rows"
    and "length rows = m" and "\<forall>r\<in>set rows. length r = n"
  shows "\<exists>d. convert_2d_array_to_dict t = Inr d \<and> length d = m * n \<and> distinct (map fst d) \<and>
           (\<forall>i\<in>{1..m}. \<forall>j\<in>{1..n}. map_of d (i, j) = Some (Scalar (rows ! (i - 1) ! (j - 1))))"
proof -
  let ?f = "\<lambda>i j. Scalar (rows ! i ! j)"
  let ?d = "grid_entries ?f [0..<m] n"
  have sh: "shape (to_values t) = [m, n]" and dt: "data (to_values t) = concat rows"
    using assms(1,2) by (simp_all add: grid_def)
  have len: "length (data (to_values t)) = m * n"
    using dt concat_uniform_length[OF assms(3)] assms(2) by simp
  have cell: "getitem (to_values t) [i, j] = Inr (?f i j)" if "i < m" "j < n" for i j
    using getitem_2d[OF sh len that] concat_uniform_nth[OF assms(3), of i j] that assms(2) dt
    by simp
  have run: "convert_2d_array_to_dict t = Inr ?d"
    using sh cell by (rule convert_2d_run)
  have look: "map_of ?d (i, j) = Some (Scalar (rows ! (i - 1) ! (j - 1)))"
    if "i \<in> {1..m}" "j \<in> {1..n}" for i j
  proof -
    have "i - 1 \<in> set [0..<m]" "j - 1 < n" "i - 1 + 1 = i" "j - 1 + 1 = j"
      using that by auto
    then show ?thesis
      using grid_entries_lookup[of "[0..<m]" "i - 1" "j - 1" n ?f] by simp
  qed
  show ?thesis
    using run look by (simp add: grid_entries_length grid_entries_distinct)
qed

theorem convert_2d_dense_witness:
  "to_values (DataFrame [''MIN'', ''PIT''] [''ATL'', ''BOS'', ''CHI''] (grid 3 [[10, 20, 30], [40, 50, 60::int]]))
     = grid 3 [[10, 20, 30], [40, 50, 60]]
   \<and> length [[10, 20, 30], [40, 50, 60::int]] = 2
   \<and> map length [[10, 20, 30], [40, 50, 60::int]] = [3, 3]
   \<and> (\<exists>d. convert_2d_array_to_dict
              (DataFrame [''MIN'', ''PIT''] [''ATL'', ''BOS'', ''CHI''] (grid 3 [[10, 20, 30], [40, 50, 60::int]]))
            = Inr d
          \<and> length d = 2 * 3 \<and> distinct (map fst d)
          \<and> map_of d (1, 1) = Some (Scalar 10) \<and> map_of d (2, 3) = Some (Scalar 60))"
proof -
  let ?rows = "[[10, 20, 30], [40, 50, 60::int]]"
  let ?t = "DataFrame [''MIN'', ''PIT''] [''ATL'', ''BOS'', ''CHI''] (grid 3 ?rows)"
  have "\<exists>d. convert_2d_array_to_dict ?t = Inr d \<and> length d = 2 * 3 \<and> distinct (map fst d) \<and>
          (\<forall>i\<in>{1..2}. \<forall>j\<in>{1..3}. map_of d (i, j) = Some (Scalar (?rows ! (i - 1) ! (j - 1))))"
    by (rule convert_2d_dense [where n = 3]) simp_all
  then obtain d where d: "convert_2d_array_to_dict ?t = Inr d" "length d = 2 * 3"
      "distinct (map fst d)"
      "\<And>i j. i \<in> {1..2} \<Longrightarrow> j \<in> {1..3} \<Longrightarrow> map_of d (i, j) = Some (Scalar (?rows ! (i - 1) ! (j - 1)))"
    by blast
  have "map_of d (1, 1) = Some (Scalar 10)" using d(4) [of 1 1] by simp
  moreover have "map_of d (2, 3) = Some (Scalar 60)" using d(4) [of 2 3] by simp
  ultimately have "\<exists>d. convert_2d_array_to_dict ?t = Inr d \<and> length d = 2 * 3 \<and> distinct (map fst d)
      \<and> map_of d (1, 1) = Some (Scalar 10) \<and> map_of d (2, 3) = Some (Scalar 60)"
    using d(1,2,3) by blast
  then show ?thesis by simp
qed

text \<open>
  C2. For every table of \<open>n\<close> values with one axis, or with the two axes \<open>n \<times> 1\<close> or
  \<open>1 \<times> n\<close>, \<^verbatim>\<open>convert_1d_array_to_dict\<close> returns a dictionary of exactly \<open>n\<close> entries
  with pairwise different keys, and for every \<open>i\<close> in \<open>1..n\<close> its value at key \<open>i\<close> is
  the element at position \<open>i - 1\<close>.
\<close>

theorem convert_1d_dense:
  assumes "to_values t = \<lparr>shape = sh, data = xs\<rparr>"
    and "length xs = n"
    and "sh = [n] \<or> sh = [n, 1] \<or> sh = [1, n]"
  shows "\<exists>d. convert_1d_array_to_dict t = Inr d \<and> length d = n \<and> distinct (map fst d) \<and>
           (\<forall>i\<in>{1..n}. map_of d i = Some (Scalar (xs ! (i - 1))))"
proof -
  let ?d = "line_entries (\<lambda>i. Scalar (xs ! i)) (length xs)"
  have one: "length (filter (\<lambda>n. n \<noteq> 1) sh) \<le> 1" using assms(3) by auto
  have size: "length xs = prod_list sh" using assms(2,3) by auto
  have run: "convert_1d_array_to_dict t = Inr ?d"
    using assms(1) one size by (rule convert_1d_scalars)
  have look: "map_of ?d i = Some (Scalar (xs ! (i - 1)))" if "i \<in> {1..n}" for i
  proof -
    have "i - 1 < length xs" "i - 1 + 1 = i" using that assms(2) by auto
    then show ?thesis using line_entries_lookup[of "i - 1" "length xs"] by simp
  qed
  show ?thesis
    using run look assms(2) by (simp add: line_entries_length line_entries_distinct)
qed

theorem convert_1d_dense_witness:
  "to_values (DataFrame [''MIN'', ''PIT'', ''TUC''] [''capacity''] \<lparr>shape = [3, 1], data = [10, 15, 14::int]\<rparr>)
     = \<lparr>shape = [3, 1], data = [10, 15, 14]\<rparr>
   \<and> length [10, 15, 14::int] = 3
   \<and> (\<exists>d. convert_1d_array_to_dict
             (DataFrame [''MIN'', ''PIT'', ''TUC''] [''capacity''] \<lparr>shape = [3, 1], data = [10, 15, 14::int]\<rparr>) = Inr d
          \<and> length d = 3 \<and> distinct (map fst d)
          \<and> map_of d 1 = Some (Scalar 10) \<and> map_of d 2 = Some (Scalar 15) \<and> map_of d 3 = Some (Scalar 14))"
proof -
  let ?xs = "[10, 15, 14::int]"
  let ?t = "DataFrame [''MIN'', ''PIT'', ''TUC''] [''capacity''] \<lparr>shape = [3, 1], data = ?xs\<rparr>"
  have "\<exists>d. convert_1d_array_to_dict ?t = Inr d \<and> length d = 3 \<and> distinct (map fst d) \<and>
           (\<forall>i\<in>{1..3}. map_of d i = Some (Scalar (?xs ! (i - 1))))"
    by (rule convert_1d_dense [where sh = "[3, 1]"]) simp_all
  then obtain d where d: "convert_1d_array_to_dict ?t = Inr d" "length d = 3" "distinct (map fst d)"
    "\<And>i. i \<in> {1..3} \<Longrightarrow> map_of d i = Some (Scalar (?xs ! (i - 1)))"
    by blast
  have "map_of d 1 = Some (Scalar 10)" using d(4) [of 1] by simp
  moreover have "map_of d 2 = Some (Scalar 15)" using d(4) [of 2] by simp
  moreover have "map_of d 3 = Some (Scalar 14)" using d(4) [of 3] by simp
  ultimately have "\<exists>d. convert_1d_array_to_dict ?t = Inr d \<and> length d = 3 \<and> distinct (map fst d)
      \<and> map_of d 1 = Some (Scalar 10) \<and> map_of d 2 = Some (Scalar 15) \<and> map_of d 3 = Some (Scalar 14)"
    using d(1,2,3) by blast
  then show ?thesis by simp
qed

text \<open>
  C6. For every table all of whose axes have extent 1 (a \<open>1 \<times> 1\<close> table, a one-element
  array, an array with no axis), holding the single value \<open>v\<close>,
  \<^verbatim>\<open>convert_1d_array_to_dict\<close> returns the dictionary \<^verbatim>\<open>{1: v}\<close>.
\<close>

theorem convert_1d_single:
  assumes "to_values t = \<lparr>shape = sh, data = [v]\<rparr>" and "set sh \<subseteq> {1}"
  shows "convert_1d_array_to_dict t = Inr [(1, Scalar v)]"
proof -
  have none: "filter (\<lambda>n. n \<noteq> 1) sh = []"
    using assms(2) by (auto simp: filter_empty_conv)
  then have "prod_list sh = 1" using prod_list_squeezed[of sh] by simp
  then have "convert_1d_array_to_dict t = Inr (line_entries (\<lambda>i. Scalar ([v] ! i)) (length [v]))"
    using none by (intro convert_1d_scalars[OF assms(1)]) simp_all
  then show ?thesis by (simp add: line_entries_def)
qed

theorem convert_1d_single_witness:
  "to_values (DataFrame [''x''] [''y''] \<lparr>shape = [1, 1], data = [42::int]\<rparr>) = \<lparr>shape = [1, 1], data = [42]\<rparr>
   \<and> set [1, 1::nat] \<subseteq> {1}
   \<and> convert_1d_array_to_dict (DataFrame [''x''] [''y''] \<lparr>shape = [1, 1], data = [42::int]\<rparr>)
       = Inr [(1, Scalar 42)]"
  using convert_1d_single [of "DataFrame [''x''] [''y''] \<lparr>shape = [1, 1], data = [42::int]\<rparr>" "[1, 1]" 42]
  by simp

text \<open>
  C10. For every table whose shape after squeezing is one axis of extent 0 (an empty
  array with one axis, a \<open>0 \<times> 1\<close> table), \<^verbatim>\<open>convert_1d_array_to_dict\<close> returns the
  empty dictionary and raises nothing.
\<close>

theorem convert_1d_empty:
  assumes "shape (squeeze (to_values t)) = [0]"
  shows "convert_1d_array_to_dict t = Inr []"
  using assms by (simp add: convert_1d_array_to_dict_def len_nd_def)

theorem convert_1d_empty_witness:
  "shape (squeeze (to_values (DataFrame [] [''demand''] \<lparr>shape = [0, 1], data = []\<rparr> :: (string, int) table))) = [0]
   \<and> convert_1d_array_to_dict (DataFrame [] [''demand''] \<lparr>shape = [0, 1], data = []\<rparr> :: (string, int) table) = Inr []"
  using convert_1d_empty [of "DataFrame [] [''demand''] \<lparr>shape = [0, 1], data = []\<rparr> :: (string, int) table"]
  by (simp add: squeeze_def)

text \<open>
  C5, as the specification has it, fails: a dictionary that a helper returns need not
  have one entry for each value of the table. For a data frame of two rows and three
  columns \<^verbatim>\<open>convert_1d_array_to_dict\<close> returns two entries, one for each row, where the
  table has six values; for an array of shape \<open>1 \<times> 2 \<times> 2\<close>
  \<^verbatim>\<open>convert_2d_array_to_dict\<close> returns two entries where the table has four.
\<close>

theorem returned_map_not_dense:
  "convert_1d_array_to_dict
     (DataFrame [''r1'', ''r2''] [''c1'', ''c2'', ''c3''] \<lparr>shape = [2, 3], data = [1, 2, 3, 4, 5, 6::int]\<rparr>)
   = Inr [(1, SubArray \<lparr>shape = [3], data = [1, 2, 3]\<rparr>), (2, SubArray \<lparr>shape = [3], data = [4, 5, 6]\<rparr>)]
   \<and> \<not> dense_1d (prod_list [2, 3])
         [(1, SubArray \<lparr>shape = [3], data = [1, 2, 3::int]\<rparr>), (2, SubArray \<lparr>shape = [3], data = [4, 5, 6]\<rparr>)]
   \<and> convert_2d_array_to_dict (NDArray \<lparr>shape = [1, 2, 2], data = [1, 2, 3, 4::int]\<rparr> :: (string, int) table)
   = Inr [((1, 1), SubArray \<lparr>shape = [2], data = [1, 2]\<rparr>), ((1, 2), SubArray \<lparr>shape = [2], data = [3, 4]\<rparr>)]
   \<and> length [((1::nat, 1::nat), SubArray \<lparr>shape = [2], data = [1, 2::int]\<rparr>),
              ((1, 2), SubArray \<lparr>shape = [2], data = [3, 4]\<rparr>)] \<noteq> prod_list [1, 2, 2]"
  by (simp add: convert_1d_rows [where n = 2 and r = "[3]"] line_entries_def
      convert_2d_planes [where m = 1 and n = 2 and r = "[2]"] grid_entries_def upt_rec dense_1d_def)

text \<open>
  C5, amended. For every well-formed table of the shape the conversion is for, the
  helper returns a parameter map that satisfies the invariant:
  \<^verbatim>\<open>convert_2d_array_to_dict\<close> on a table with exactly two axes, of extents \<open>m\<close> and
  \<open>n\<close>, returns a dictionary of numbers whose keys \<open>(i, j)\<close> have \<open>i\<close> in \<open>1..m\<close>
  and \<open>j\<close> in \<open>1..n\<close>, no key twice, and \<open>m * n\<close> entries; and
  \<^verbatim>\<open>convert_1d_array_to_dict\<close> on a table of which at most one axis remains after
  squeezing returns a dictionary of numbers whose keys lie in \<open>1..n\<close>, no key twice,
  and \<open>n\<close> entries, \<open>n\<close> being the number of values of the table.
\<close>

theorem parameter_map_dense:
  assumes "wf_ndarray (to_values t)"
  shows "(\<forall>m n. shape (to_values t) = [m, n] \<longrightarrow>
            (\<exists>d. convert_2d_array_to_dict t = Inr d \<and> parameter_map d \<and> dense_2d m n d))
       \<and> (length (shape (squeeze (to_values t))) \<le> 1 \<longrightarrow>
            (\<exists>d. convert_1d_array_to_dict t = Inr d \<and> parameter_map d \<and>
                 dense_1d (prod_list (shape (to_values t))) d))"
proof (intro conjI allI impI)
  fix m n
  assume sh: "shape (to_values t) = [m, n]"
  have len: "length (data (to_values t)) = m * n"
    using assms sh by (simp add: wf_ndarray_def)
  have "convert_2d_array_to_dict t
        = Inr (grid_entries (\<lambda>i j. Scalar (data (to_values t) ! (i * n + j))) [0..<m] n)"
    using sh len by (rule convert_2d_cells)
  then show "\<exists>d. convert_2d_array_to_dict t = Inr d \<and> parameter_map d \<and> dense_2d m n d"
    by (simp add: grid_entries_scalars grid_entries_dense)
next
  assume "length (shape (squeeze (to_values t))) \<le> 1"
  then have one: "length (filter (\<lambda>n. n \<noteq> 1) (shape (to_values t))) \<le> 1"
    by (simp add: squeeze_def)
  have a: "to_values t = \<lparr>shape = shape (to_values t), data = data (to_values t)\<rparr>"
    by simp
  have len: "length (data (to_values t)) = prod_list (shape (to_values t))"
    using assms by (simp add: wf_ndarray_def)
  have "convert_1d_array_to_dict t
        = Inr (line_entries (\<lambda>i. Scalar (data (to_values t) ! i)) (length (data (to_values t))))"
    using a one len by (rule convert_1d_scalars)
  then show "\<exists>d. convert_1d_array_to_dict t = Inr d \<and> parameter_map d \<and>
                 dense_1d (prod_list (shape (to_values t))) d"
    using len by (simp add: line_entries_scalars line_entries_dense)
qed

theorem parameter_map_dense_witness:
  "wf_ndarray (to_values (DataFrame [''MIN'', ''PIT'', ''TUC''] [''capacity''] \<lparr>shape = [3, 1], data = [10, 15, 14::int]\<rparr>))
   \<and> shape (to_values (DataFrame [''MIN'', ''PIT'', ''TUC''] [''capacity''] \<lparr>shape = [3, 1], data = [10, 15, 14::int]\<rparr>))
       = [3, 1]
   \<and> length (shape (squeeze (to_values
         (DataFrame [''MIN'', ''PIT'', ''TUC''] [''capacity''] \<lparr>shape = [3, 1], data = [10, 15, 14::int]\<rparr>)))) \<le> 1
   \<and> (\<exists>d. convert_2d_array_to_dict
              (DataFrame [''MIN'', ''PIT'', ''TUC''] [''capacity''] \<lparr>shape = [3, 1], data = [10, 15, 14::int]\<rparr>) = Inr d
          \<and> parameter_map d \<and> dense_2d 3 1 d)
   \<and> (\<exists>d. convert_1d_array_to_dict
              (DataFrame [''MIN'', ''PIT'', ''TUC''] [''capacity''] \<lparr>shape = [3, 1], data = [10, 15, 14::int]\<rparr>) = Inr d
          \<and> parameter_map d \<and> dense_1d 3 d)"
proof -
  let ?t = "DataFrame [''MIN'', ''PIT'', ''TUC''] [''capacity''] \<lparr>shape = [3, 1], data = [10, 15, 14::int]\<rparr>"
  have wf: "wf_ndarray (to_values ?t)" by (simp add: wf_ndarray_def)
  have sh: "shape (to_values ?t) = [3, 1]" by simp
  have sq: "length (shape (squeeze (to_values ?t))) \<le> 1" by (simp add: squeeze_def)
  have two: "\<exists>d. convert_2d_array_to_dict ?t = Inr d \<and> parameter_map d \<and> dense_2d 3 1 d"
    using parameter_map_dense [OF wf] sh by blast
  have "\<exists>d. convert_1d_array_to_dict ?t = Inr d \<and> parameter_map d \<and>
          dense_1d (prod_list (shape (to_values ?t))) d"
    using parameter_map_dense [OF wf] sq by blast
  then have one: "\<exists>d. convert_1d_array_to_dict ?t = Inr d \<and> parameter_map d \<and> dense_1d 3 d"
    by simp
  from wf sh sq two one show ?thesis by (intro conjI)
qed

text \<open>
  C7. For every well-formed table of \<open>m\<close> rows and \<open>n\<close> columns, the entries of the
  dictionary returned by \<^verbatim>\<open>convert_2d_array_to_dict\<close>, in the order of the dictionary,
  are \<open>m * n\<close> many; the entry at position \<open>(i - 1) * n + (j - 1)\<close> is the one with key
  \<open>(i, j)\<close>; and the column of the values, reshaped to \<open>m\<close> by \<open>n\<close>, is the table
  itself.
\<close>

theorem reshape_inverts_enumeration:
  assumes "to_values t = a" and "shape a = [m, n]" and "wf_ndarray a"
  shows "\<exists>d. convert_2d_array_to_dict t = Inr d \<and> length (dict_values d) = m * n \<and>
           (\<forall>i\<in>{1..m}. \<forall>j\<in>{1..n}.
               fst (d ! ((i - 1) * n + (j - 1))) = (i, j) \<and>
               map_of d (i, j) = Some (dict_values d ! ((i - 1) * n + (j - 1)))) \<and>
           reshape (column (dict_values d)) [m, n] = Inr a"
proof -
  let ?f = "\<lambda>i j. Scalar (data a ! (i * n + j))"
  let ?d = "grid_entries ?f [0..<m] n"
  have len: "length (data a) = m * n"
    using assms(2,3) by (simp add: wf_ndarray_def)
  have run: "convert_2d_array_to_dict t = Inr ?d"
    using convert_2d_cells[of t m n] assms(1,2) len by simp
  have vals: "dict_values ?d = map Scalar (data a)"
    unfolding dict_values_def using len by (rule cells_values)
  have size: "length (dict_values ?d) = m * n"
    using vals len by simp
  have pos: "fst (?d ! ((i - 1) * n + (j - 1))) = (i, j) \<and>
             map_of ?d (i, j) = Some (dict_values ?d ! ((i - 1) * n + (j - 1)))"
    if "i \<in> {1..m}" "j \<in> {1..n}" for i j
  proof -
    have ij: "i - 1 < m" "j - 1 < n" "i - 1 + 1 = i" "j - 1 + 1 = j"
      using that by auto
    have at: "?d ! ((i - 1) * n + (j - 1)) = ((i, j), ?f (i - 1) (j - 1))"
      using grid_entries_nth[of "i - 1" "[0..<m]" "j - 1" n ?f] ij by simp
    have inb: "(i - 1) * n + (j - 1) < length ?d"
    proof -
      have "(i - 1) * n + n \<le> m * n"
        using ij(1) by (metis Suc_leI mult_Suc mult_le_mono1 add.commute)
      then show ?thesis using ij(2) by (simp add: grid_entries_length)
    qed
    have "dict_values ?d ! ((i - 1) * n + (j - 1)) = ?f (i - 1) (j - 1)"
      unfolding dict_values_def using inb at by simp
    moreover have "map_of ?d (i, j) = Some (?f (i - 1) (j - 1))"
      using grid_entries_lookup[of "[0..<m]" "i - 1" "j - 1" n ?f] ij by simp
    ultimately show ?thesis using at by simp
  qed
  have "concat (map item_data (dict_values ?d)) = data a"
    unfolding vals by (rule scalars_data)
  then have col: "column (dict_values ?d) = \<lparr>shape = [m * n, 1], data = data a\<rparr>"
    using size by (simp add: column_def)
  have inv: "reshape (column (dict_values ?d)) [m, n] = Inr a"
    unfolding col using assms(2) by (cases a) (simp add: reshape_def)
  show ?thesis
    using run size pos inv by blast
qed

theorem reshape_inverts_enumeration_witness:
  "wf_ndarray \<lparr>shape = [2, 3], data = [10, 20, 30, 40, 50, 60::int]\<rparr>
   \<and> (\<exists>d. convert_2d_array_to_dict
             (DataFrame [''MIN'', ''PIT''] [''ATL'', ''BOS'', ''CHI''] \<lparr>shape = [2, 3], data = [10, 20, 30, 40, 50, 60::int]\<rparr>) = Inr d
         \<and> length (dict_values d) = 2 * 3
         \<and> fst (d ! 5) = (2, 3) \<and> map_of d (2, 3) = Some (dict_values d ! 5)
         \<and> reshape (column (dict_values d)) [2, 3] = Inr \<lparr>shape = [2, 3], data = [10, 20, 30, 40, 50, 60]\<rparr>)"
proof -
  let ?a = "\<lparr>shape = [2, 3], data = [10, 20, 30, 40, 50, 60::int]\<rparr>"
  let ?t = "DataFrame [''MIN'', ''PIT''] [''ATL'', ''BOS'', ''CHI''] ?a"
  have wf: "wf_ndarray ?a" by (simp add: wf_ndarray_def)
  have "\<exists>d. convert_2d_array_to_dict ?t = Inr d \<and> length (dict_values d) = 2 * 3 \<and>
           (\<forall>i\<in>{1..2}. \<forall>j\<in>{1..3}.
               fst (d ! ((i - 1) * 3 + (j - 1))) = (i, j) \<and>
               map_of d (i, j) = Some (dict_values d ! ((i - 1) * 3 + (j - 1)))) \<and>
           reshape (column (dict_values d)) [2, 3] = Inr ?a"
    using wf by (intro reshape_inverts_enumeration) simp_all
  then obtain d where d: "convert_2d_array_to_dict ?t = Inr d" "length (dict_values d) = 2 * 3"
    "\<And>i j. i \<in> {1..2} \<Longrightarrow> j \<in> {1..3} \<Longrightarrow>
       fst (d ! ((i - 1) * 3 + (j - 1))) = (i, j) \<and>
       map_of d (i, j) = Some (dict_values d ! ((i - 1) * 3 + (j - 1)))"
    "reshape (column (dict_values d)) [2, 3] = Inr ?a"
    by blast
  have "fst (d ! 5) = (2, 3) \<and> map_of d (2, 3) = Some (dict_values d ! 5)"
    using d(3) [of 2 3] by simp
  then show ?thesis using wf d(1,2,4) by blast
qed

section \<open>Tables of another shape\<close>

text \<open>
  C3, as the specification has it, fails: a table of two rows and two columns is not
  rejected by \<^verbatim>\<open>convert_1d_array_to_dict\<close>. The helper returns a dictionary of two
  entries, each holding a whole row.
\<close>

theorem convert_1d_no_shape_error:
  "convert_1d_array_to_dict
     (DataFrame [''r1'', ''r2''] [''c1'', ''c2''] \<lparr>shape = [2, 2], data = [1, 2, 3, 4::int]\<rparr>)
   = Inr [(1, SubArray \<lparr>shape = [2], data = [1, 2]\<rparr>), (2, SubArray \<lparr>shape = [2], data = [3, 4]\<rparr>)]"
  by (simp add: convert_1d_rows [where n = 2 and r = "[2]"] line_entries_def upt_rec)

text \<open>
  C3, amended. For every table of which more than one axis remains after squeezing,
  \<^verbatim>\<open>convert_1d_array_to_dict\<close> raises nothing: it returns a dictionary with one entry
  for each index \<open>i\<close> of the first remaining axis, of extent \<open>n\<close>, under the key \<open>i\<close>
  counted from 1, and the value is the sub-array at that index over the remaining axes
  \<open>r\<close>.
\<close>

theorem convert_1d_two_axes:
  assumes "shape (squeeze (to_values t)) = n # r" and "r \<noteq> []"
  shows "\<exists>d. convert_1d_array_to_dict t = Inr d \<and> length d = n \<and>
           (\<forall>i\<in>{1..n}. map_of d i = Some (SubArray \<lparr>shape = r,
               data = take (prod_list r) (drop ((i - 1) * prod_list r) (data (to_values t)))\<rparr>))"
proof -
  let ?f = "\<lambda>i. SubArray \<lparr>shape = r,
               data = take (prod_list r) (drop (i * prod_list r) (data (to_values t)))\<rparr>"
  have "filter (\<lambda>n. n \<noteq> 1) (shape (to_values t)) = n # r"
    using assms(1) by (simp add: squeeze_def)
  then have run: "convert_1d_array_to_dict t = Inr (line_entries ?f n)"
    using assms(2) by (rule convert_1d_rows)
  have look: "map_of (line_entries ?f n) i = Some (?f (i - 1))" if "i \<in> {1..n}" for i
  proof -
    have "i - 1 < n" "i - 1 + 1 = i" using that by auto
    then show ?thesis using line_entries_lookup[of "i - 1" n ?f] by simp
  qed
  show ?thesis using run look by (simp add: line_entries_length)
qed

theorem convert_1d_two_axes_witness:
  "\<exists>d. convert_1d_array_to_dict (NDArray \<lparr>shape = [2, 1, 3], data = [1, 2, 3, 4, 5, 6::int]\<rparr> :: (string, int) table) = Inr d
      \<and> length d = 2
      \<and> map_of d 1 = Some (SubArray \<lparr>shape = [3], data = [1, 2, 3]\<rparr>)
      \<and> map_of d 2 = Some (SubArray \<lparr>shape = [3], data = [4, 5, 6]\<rparr>)"
proof -
  let ?t = "NDArray \<lparr>shape = [2, 1, 3], data = [1, 2, 3, 4, 5, 6::int]\<rparr> :: (string, int) table"
  have "\<exists>d. convert_1d_array_to_dict ?t = Inr d \<and> length d = 2 \<and>
           (\<forall>i\<in>{1..2}. map_of d i = Some (SubArray \<lparr>shape = [3],
               data = take (prod_list [3]) (drop ((i - 1) * prod_list [3]) (data (to_values ?t)))\<rparr>))"
    by (rule convert_1d_two_axes) (simp_all add: squeeze_def)
  then obtain d where d: "convert_1d_array_to_dict ?t = Inr d" "length d = 2"
    "\<And>i. i \<in> {1..2} \<Longrightarrow> map_of d i = Some (SubArray \<lparr>shape = [3],
               data = take (prod_list [3]) (drop ((i - 1) * prod_list [3]) (data (to_values ?t)))\<rparr>)"
    by blast
  have "map_of d 1 = Some (SubArray \<lparr>shape = [3], data = [1, 2, 3]\<rparr>)"
    using d(3) [of 1] by simp
  moreover have "map_of d 2 = Some (SubArray \<lparr>shape = [3], data = [4, 5, 6]\<rparr>)"
    using d(3) [of 2] by simp
  ultimately show ?thesis using d(1,2) by blast
qed

text \<open>
  C4, as the specification has it, fails: \<^verbatim>\<open>convert_2d_array_to_dict\<close> returns a
  dictionary of sub-arrays for an array with three axes and the empty dictionary for an
  empty series, and for a series of two values the exception is Python's
  \<^verbatim>\<open>IndexError\<close>, raised by \<^verbatim>\<open>arr.shape[1]\<close>.
\<close>

theorem convert_2d_no_shape_error:
  "convert_2d_array_to_dict (NDArray \<lparr>shape = [1, 2, 2], data = [1, 2, 3, 4::int]\<rparr> :: (string, int) table)
     = Inr [((1, 1), SubArray \<lparr>shape = [2], data = [1, 2]\<rparr>), ((1, 2), SubArray \<lparr>shape = [2], data = [3, 4]\<rparr>)]
   \<and> convert_2d_array_to_dict (Series [] \<lparr>shape = [0], data = []\<rparr> :: (string, int) table) = Inr []
   \<and> convert_2d_array_to_dict (Series [''a'', ''b''] \<lparr>shape = [2], data = [1, 2::int]\<rparr>) = Inl IndexError"
  by (simp add: convert_2d_planes [where m = 1 and n = 2 and r = "[2]"] convert_2d_one_axis [where n = 0]
      convert_2d_one_axis [where n = 2] grid_entries_def upt_rec)

text \<open>
  C4, amended. For every table that does not have exactly two axes,
  \<^verbatim>\<open>convert_2d_array_to_dict\<close> raises \<^verbatim>\<open>IndexError\<close> when the table has no axis or
  one axis of extent at least 1, returns the empty dictionary when it has one axis of
  extent 0, and with three or more axes returns, under each key \<open>(i, j)\<close> of the first
  two axes, the sub-array over the remaining axes.
\<close>

theorem convert_2d_other_rank:
  assumes "length (shape (to_values t)) \<noteq> 2"
  shows "convert_2d_array_to_dict t =
         (case shape (to_values t) of
            [] \<Rightarrow> Inl IndexError
          | [n] \<Rightarrow> if n = 0 then Inr [] else Inl IndexError
          | m # n # r \<Rightarrow>
              Inr (grid_entries (\<lambda>i j. SubArray \<lparr>shape = r,
                     data = take (prod_list r) (drop (j * prod_list r)
                              (take (n * prod_list r) (drop (i * (n * prod_list r)) (data (to_values t)))))\<rparr>)
                   [0..<m] n))"
proof (cases "shape (to_values t)")
  case Nil
  then show ?thesis by (simp add: convert_2d_no_axis)
next
  case (Cons m rest)
  show ?thesis
  proof (cases rest)
    case Nil
    then show ?thesis using Cons by (simp add: convert_2d_one_axis)
  next
    case (Cons n r)
    then have "r \<noteq> []" using assms \<open>shape (to_values t) = m # rest\<close> by auto
    then show ?thesis
      using Cons \<open>shape (to_values t) = m # rest\<close> by (simp add: convert_2d_planes)
  qed
qed

theorem convert_2d_other_rank_witness:
  "convert_2d_array_to_dict (Series [''a'', ''b'', ''c''] \<lparr>shape = [3], data = [1, 2, 3::int]\<rparr>) = Inl IndexError
   \<and> convert_2d_array_to_dict (NDArray \<lparr>shape = [], data = [7::int]\<rparr> :: (string, int) table) = Inl IndexError
   \<and> convert_2d_array_to_dict (NDArray \<lparr>shape = [0], data = []\<rparr> :: (string, int) table) = Inr []
   \<and> convert_2d_array_to_dict (NDArray \<lparr>shape = [2, 1, 2], data = [1, 2, 3, 4::int]\<rparr> :: (string, int) table)
       = Inr [((1, 1), SubArray \<lparr>shape = [2], data = [1, 2]\<rparr>), ((2, 1), SubArray \<lparr>shape = [2], data = [3, 4]\<rparr>)]"
  using convert_2d_other_rank [of "Series [''a'', ''b'', ''c''] \<lparr>shape = [3], data = [1, 2, 3::int]\<rparr>"]
    convert_2d_other_rank [of "NDArray \<lparr>shape = [], data = [7::int]\<rparr> :: (string, int) table"]
    convert_2d_other_rank [of "NDArray \<lparr>shape = [0], data = []\<rparr> :: (string, int) table"]
    convert_2d_other_rank [of "NDArray \<lparr>shape = [2, 1, 2], data = [1, 2, 3, 4::int]\<rparr> :: (string, int) table"]
  by (simp add: grid_entries_def upt_rec)

section \<open>Labels and the store\<close>

text \<open>
  C9. Both helpers return for a data frame, and for a series, what they return for its
  array of values alone; other row and column labels on the same values give the same
  result.
\<close>

theorem labels_ignored:
  "convert_1d_array_to_dict (DataFrame idx cols v) = convert_1d_array_to_dict (NDArray v)
   \<and> convert_2d_array_to_dict (DataFrame idx cols v) = convert_2d_array_to_dict (NDArray v)
   \<and> convert_1d_array_to_dict (Series idx v) = convert_1d_array_to_dict (NDArray v)
   \<and> convert_2d_array_to_dict (Series idx v) = convert_2d_array_to_dict (NDArray v)
   \<and> convert_1d_array_to_dict (DataFrame idx' cols' v) = convert_1d_array_to_dict (DataFrame idx cols v)
   \<and> convert_2d_array_to_dict (DataFrame idx' cols' v) = convert_2d_array_to_dict (DataFrame idx cols v)"
  by (simp add: convert_1d_array_to_dict_def convert_2d_array_to_dict_def)

text \<open>
  C8. Two calls of a helper on equal tables, in any two stores and at any two
  references, both return, and return the same dictionary (or raise the same
  exception), namely the value the helper has as a function of the table; each call
  leaves every object of its store, the table among them, as it was, and only adds
  objects.
\<close>

theorem conversions_pure:
  assumes "obj_at h r = Some x" and "obj_at g s = Some x"
  shows "(\<exists>h' g'. convert_1d_call r h = Some (convert_1d_array_to_dict x, h')
            \<and> convert_1d_call s g = Some (convert_1d_array_to_dict x, g')
            \<and> extends h h' \<and> extends g g' \<and> obj_at h' r = Some x \<and> obj_at g' s = Some x)
       \<and> (\<exists>h' g'. convert_2d_call r h = Some (convert_2d_array_to_dict x, h')
            \<and> convert_2d_call s g = Some (convert_2d_array_to_dict x, g')
            \<and> extends h h' \<and> extends g g' \<and> obj_at h' r = Some x \<and> obj_at g' s = Some x)"
proof
  obtain h' g' where
    "convert_1d_call r h = Some (convert_1d_array_to_dict x, h')" "extends h h'"
    "convert_1d_call s g = Some (convert_1d_array_to_dict x, g')" "extends g g'"
    using convert_1d_call_ok[OF assms(1)] convert_1d_call_ok[OF assms(2)] by blast
  then show "\<exists>h' g'. convert_1d_call r h = Some (convert_1d_array_to_dict x, h')
            \<and> convert_1d_call s g = Some (convert_1d_array_to_dict x, g')
            \<and> extends h h' \<and> extends g g' \<and> obj_at h' r = Some x \<and> obj_at g' s = Some x"
    using assms extends_obj_at by blast
next
  obtain h' g' where
    "convert_2d_call r h = Some (convert_2d_array_to_dict x, h')" "extends h h'"
    "convert_2d_call s g = Some (convert_2d_array_to_dict x, g')" "extends g g'"
    using convert_2d_call_ok[OF assms(1)] convert_2d_call_ok[OF assms(2)] by blast
  then show "\<exists>h' g'. convert_2d_call r h = Some (convert_2d_array_to_dict x, h')
            \<and> convert_2d_call s g = Some (convert_2d_array_to_dict x, g')
            \<and> extends h h' \<and> extends g g' \<and> obj_at h' r = Some x \<and> obj_at g' s = Some x"
    using assms extends_obj_at by blast
qed

theorem conversions_pure_witness:
  "obj_at [DataFrame [''MIN'', ''PIT''] [''capacity''] \<lparr>shape = [2, 1], data = [10, 15::int]\<rparr>] 0
     = Some (DataFrame [''MIN'', ''PIT''] [''capacity''] \<lparr>shape = [2, 1], data = [10, 15]\<rparr>)
   \<and> obj_at [NDArray \<lparr>shape = [1], data = [7]\<rparr>,
              DataFrame [''MIN'', ''PIT''] [''capacity''] \<lparr>shape = [2, 1], data = [10, 15::int]\<rparr>] 1
     = Some (DataFrame [''MIN'', ''PIT''] [''capacity''] \<lparr>shape = [2, 1], data = [10, 15]\<rparr>)
   \<and> (\<exists>h' g'.
         convert_1d_call 0 [DataFrame [''MIN'', ''PIT''] [''capacity''] \<lparr>shape = [2, 1], data = [10, 15::int]\<rparr>]
           = Some (Inr [(1, Scalar 10), (2, Scalar 15)], h')
       \<and> convert_1d_call 1 [NDArray \<lparr>shape = [1], data = [7]\<rparr>,
              DataFrame [''MIN'', ''PIT''] [''capacity''] \<lparr>shape = [2, 1], data = [10, 15::int]\<rparr>]
           = Some (Inr [(1, Scalar 10), (2, Scalar 15)], g')
       \<and> obj_at h' 0 = Some (DataFrame [''MIN'', ''PIT''] [''capacity''] \<lparr>shape = [2, 1], data = [10, 15]\<rparr>)
       \<and> obj_at g' 1 = Some (DataFrame [''MIN'', ''PIT''] [''capacity''] \<lparr>shape = [2, 1], data = [10, 15]\<rparr>))
   \<and> (\<exists>h' g'.
         convert_2d_call 0 [DataFrame [''MIN'', ''PIT''] [''capacity''] \<lparr>shape = [2, 1], data = [10, 15::int]\<rparr>]
           = Some (Inr [((1, 1), Scalar 10), ((2, 1), Scalar 15)], h')
       \<and> convert_2d_call 1 [NDArray \<lparr>shape = [1], data = [7]\<rparr>,
              DataFrame [''MIN'', ''PIT''] [''capacity''] \<lparr>shape = [2, 1], data = [10, 15::int]\<rparr>]
           = Some (Inr [((1, 1), Scalar 10), ((2, 1), Scalar 15)], g')
       \<and> obj_at h' 0 = Some (DataFrame [''MIN'', ''PIT''] [''capacity''] \<lparr>shape = [2, 1], data = [10, 15]\<rparr>)
       \<and> obj_at g' 1 = Some (DataFrame [''MIN'', ''PIT''] [''capacity''] \<lparr>shape = [2, 1], data = [10, 15]\<rparr>))"
proof -
  let ?x = "DataFrame [''MIN'', ''PIT''] [''capacity''] \<lparr>shape = [2, 1], data = [10, 15::int]\<rparr>"
  let ?h = "[?x]"
  let ?g = "[NDArray \<lparr>shape = [1], data = [7]\<rparr>, ?x]"
  have h: "obj_at ?h 0 = Some ?x" and g: "obj_at ?g 1 = Some ?x"
    by (simp_all add: obj_at_def)
  have res1: "convert_1d_array_to_dict ?x = Inr [(1, Scalar 10), (2, Scalar 15)]"
    by (simp add: convert_1d_scalars [where sh = "[2, 1]" and xs = "[10, 15]"] line_entries_def upt_rec)
  have res2: "convert_2d_array_to_dict ?x = Inr [((1, 1), Scalar 10), ((2, 1), Scalar 15)]"
    by (simp add: convert_2d_cells [where m = 2 and n = 1] grid_entries_def upt_rec)
  have "\<exists>h' g'. convert_1d_call 0 ?h = Some (convert_1d_array_to_dict ?x, h')
            \<and> convert_1d_call 1 ?g = Some (convert_1d_array_to_dict ?x, g')
            \<and> extends ?h h' \<and> extends ?g g' \<and> obj_at h' 0 = Some ?x \<and> obj_at g' 1 = Some ?x"
    using conversions_pure [OF h g] by (rule conjunct1)
  then obtain h1 g1 where run1:
    "convert_1d_call 0 ?h = Some (convert_1d_array_to_dict ?x, h1)"
    "convert_1d_call 1 ?g = Some (convert_1d_array_to_dict ?x, g1)"
    "obj_at h1 0 = Some ?x" "obj_at g1 1 = Some ?x"
    by (elim exE conjE)
  have one: "\<exists>h' g'. convert_1d_call 0 ?h = Some (Inr [(1, Scalar 10), (2, Scalar 15)], h')
            \<and> convert_1d_call 1 ?g = Some (Inr [(1, Scalar 10), (2, Scalar 15)], g')
            \<and> obj_at h' 0 = Some ?x \<and> obj_at g' 1 = Some ?x"
    using run1(1,2) [unfolded res1] run1(3,4) by (intro exI conjI)
  have "\<exists>h' g'. convert_2d_call 0 ?h = Some (convert_2d_array_to_dict ?x, h')
            \<and> convert_2d_call 1 ?g = Some (convert_2d_array_to_dict ?x, g')
            \<and> extends ?h h' \<and> extends ?g g' \<and> obj_at h' 0 = Some ?x \<and> obj_at g' 1 = Some ?x"
    using conversions_pure [OF h g] by (rule conjunct2)
  then obtain h2 g2 where run2:
    "convert_2d_call 0 ?h = Some (convert_2d_array_to_dict ?x, h2)"
    "convert_2d_call 1 ?g = Some (convert_2d_array_to_dict ?x, g2)"
    "obj_at h2 0 = Some ?x" "obj_at g2 1 = Some ?x"
    by (elim exE conjE)
  have two: "\<exists>h' g'. convert_2d_call 0 ?h = Some (Inr [((1, 1), Scalar 10), ((2, 1), Scalar 15)], h')
            \<and> convert_2d_call 1 ?g = Some (Inr [((1, 1), Scalar 10), ((2, 1), Scalar 15)], g')
            \<and> obj_at h' 0 = Some ?x \<and> obj_at g' 1 = Some ?x"
    using run2(1,2) [unfolded res2] run2(3,4) by (intro exI conjI)
  from h g one two show ?thesis by (intro conjI)
qed

end
